theory Spec2Isabelle
  imports Main
begin

section \<open>gotype: the runner of \<^verbatim>\<open>run/run.go\<close>\<close>

text \<open>
  The package shells out to a \<^verbatim>\<open>type\<close> binary and interprets the text it prints.
  Go strings are byte sequences, so a Go string is a \<^typ>\<open>string\<close> here (a list of
  8-bit characters), and the functions of package \<^verbatim>\<open>strings\<close> that \<^verbatim>\<open>run.go\<close>
  calls are written out first.
\<close>

subsection \<open>Package \<^verbatim>\<open>unicode/utf8\<close>: decoding\<close>

definition RuneError :: nat where
  "RuneError = 65533"

definition byteIn :: "char \<Rightarrow> nat \<Rightarrow> nat \<Rightarrow> bool" where
  "byteIn c lo hi = (lo \<le> of_char c \<and> (of_char c :: nat) \<le> hi)"

text \<open>
  \<^verbatim>\<open>utf8.DecodeRuneInString\<close>: the first rune of the string and its width in bytes.
  An invalid or truncated encoding decodes to \<^verbatim>\<open>RuneError\<close> of width 1; the second byte
  of a three or four byte encoding has the narrowed range that excludes overlong forms,
  surrogates and values beyond U+10FFFF.
\<close>

fun DecodeRuneInString :: "string \<Rightarrow> nat \<times> nat" where
  "DecodeRuneInString [] = (RuneError, 0)"
| "DecodeRuneInString (c # cs) =
     (let b0 = (of_char c :: nat) in
      if b0 < 128 then (b0, 1)
      else if 194 \<le> b0 \<and> b0 \<le> 223 then
        (case cs of
           c1 # _ \<Rightarrow>
             if byteIn c1 128 191
             then ((b0 mod 32) * 64 + of_char c1 mod 64, 2)
             else (RuneError, 1)
         | _ \<Rightarrow> (RuneError, 1))
      else if 224 \<le> b0 \<and> b0 \<le> 239 then
        (case cs of
           c1 # c2 # _ \<Rightarrow>
             if byteIn c1 (if b0 = 224 then 160 else 128) (if b0 = 237 then 159 else 191)
                \<and> byteIn c2 128 191
             then ((b0 mod 16) * 4096 + (of_char c1 mod 64) * 64 + of_char c2 mod 64, 3)
             else (RuneError, 1)
         | _ \<Rightarrow> (RuneError, 1))
      else if 240 \<le> b0 \<and> b0 \<le> 244 then
        (case cs of
           c1 # c2 # c3 # _ \<Rightarrow>
             if byteIn c1 (if b0 = 240 then 144 else 128) (if b0 = 244 then 143 else 191)
                \<and> byteIn c2 128 191 \<and> byteIn c3 128 191
             then ((b0 mod 8) * 262144 + (of_char c1 mod 64) * 4096
                     + (of_char c2 mod 64) * 64 + of_char c3 mod 64, 4)
             else (RuneError, 1)
         | _ \<Rightarrow> (RuneError, 1))
      else (RuneError, 1))"

text \<open>
  The runes of a string in order, each with the bytes that encode it: what
  \<^verbatim>\<open>for _, r := range s\<close> visits.
\<close>

function runes :: "string \<Rightarrow> (nat \<times> string) list" where
  "runes s =
     (if s = [] then []
      else (fst (DecodeRuneInString s), take (snd (DecodeRuneInString s)) s)
             # runes (drop (snd (DecodeRuneInString s)) s))"
  by pat_completeness auto
termination
proof (relation "measure length")
  show "wf (measure length)" by simp
next
  fix s :: string
  assume nonempty: "s \<noteq> []"
  then have "0 < snd (DecodeRuneInString s)"
    by (cases s) (auto simp: Let_def split: list.splits)
  with nonempty show "(drop (snd (DecodeRuneInString s)) s, s) \<in> measure length"
    by (cases s) auto
qed

declare runes.simps [simp del]

subsection \<open>Package \<^verbatim>\<open>strings\<close>\<close>

fun HasPrefix :: "string \<Rightarrow> string \<Rightarrow> bool" where
  "HasPrefix s p = (take (length p) s = p)"

fun HasSuffix :: "string \<Rightarrow> string \<Rightarrow> bool" where
  "HasSuffix s p = (length p \<le> length s \<and> drop (length s - length p) s = p)"

text \<open>\<^verbatim>\<open>strings.Contains\<close>: a byte-wise, case-sensitive substring test.\<close>

fun Contains :: "string \<Rightarrow> string \<Rightarrow> bool" where
  "Contains [] w = (w = [])"
| "Contains (c # cs) w = (HasPrefix (c # cs) w \<or> Contains cs w)"

text \<open>
  \<^verbatim>\<open>strings.Split(s, sep)\<close> for a non-empty separator: the pieces of \<open>s\<close> between
  successive, non-overlapping occurrences of \<open>sep\<close>, found from the left; there is always
  at least one piece. Both calls in \<^verbatim>\<open>run.go\<close> pass a non-empty literal; the library's
  rune-wise explosion for an empty separator is not reproduced (an empty separator
  never matches here).
\<close>

fun Split_from :: "string \<Rightarrow> string \<Rightarrow> string \<Rightarrow> string list" where
  "Split_from sep cur [] = [cur]"
| "Split_from sep cur (c # cs) =
     (if sep \<noteq> [] \<and> HasPrefix (c # cs) sep
      then cur # Split_from sep [] (drop (length sep) (c # cs))
      else Split_from sep (cur @ [c]) cs)"

definition Split :: "string \<Rightarrow> string \<Rightarrow> string list" where
  "Split s sep = Split_from sep [] s"

text \<open>
  \<^verbatim>\<open>unicode.IsSpace\<close>: the White\_Space code points, and \<^verbatim>\<open>strings.TrimSpace\<close>, which
  removes the leading and the trailing white-space runes.
\<close>

definition IsSpace :: "nat \<Rightarrow> bool" where
  "IsSpace r =
     ((9 \<le> r \<and> r \<le> 13) \<or> r = 32 \<or> r = 133 \<or> r = 160 \<or> r = 5760
      \<or> (8192 \<le> r \<and> r \<le> 8202) \<or> r = 8232 \<or> r = 8233 \<or> r = 8239
      \<or> r = 8287 \<or> r = 12288)"

definition TrimSpace :: "string \<Rightarrow> string" where
  "TrimSpace s =
     concat (map snd
       (rev (dropWhile (\<lambda>p. IsSpace (fst p))
          (rev (dropWhile (\<lambda>p. IsSpace (fst p)) (runes s))))))"

text \<open>
  \<^verbatim>\<open>unicode.SimpleFold\<close> steps through the runes that are equal under simple case
  folding. The orbits reproduced are those that contain an ASCII rune: \<open>{K, k, U+212A}\<close>,
  \<open>{S, s, U+017F}\<close> and \<open>{X, x}\<close> for the other letters; every other rune is taken
  to fold to itself only. \<^verbatim>\<open>run.go\<close> calls \<^verbatim>\<open>EqualFold\<close> with a category name as one
  argument, so one rune of every compared pair is ASCII and no other orbit is consulted.
\<close>

definition SimpleFold :: "nat \<Rightarrow> nat" where
  "SimpleFold r =
     (if 65 \<le> r \<and> r \<le> 90 then r + 32
      else if r = 107 then 8490
      else if r = 115 then 383
      else if 97 \<le> r \<and> r \<le> 122 then r - 32
      else if r = 8490 then 75
      else if r = 383 then 83
      else r)"

definition foldEq :: "nat \<Rightarrow> nat \<Rightarrow> bool" where
  "foldEq sr tr = (tr = sr \<or> tr = SimpleFold sr \<or> tr = SimpleFold (SimpleFold sr))"

text \<open>
  \<^verbatim>\<open>strings.EqualFold\<close>: the two strings have the same number of runes and the runes
  are pairwise equal under simple folding. (The library compares byte by byte while both
  strings are ASCII and rune by rune from the first non-ASCII byte on; that is the same
  comparison.)
\<close>

definition EqualFold :: "string \<Rightarrow> string \<Rightarrow> bool" where
  "EqualFold s t = list_all2 (\<lambda>a b. foldEq (fst a) (fst b)) (runes s) (runes t)"

text \<open>
  \<^verbatim>\<open>strings.ToLower\<close>. \<^verbatim>\<open>run.go\<close> uses the result only as a key of \<^verbatim>\<open>shortFlagMap\<close>,
  whose keys are ASCII, and no rune beyond ASCII has an ASCII lower case that occurs in
  those keys; so the lower-casing of the ASCII letters decides every lookup, and bytes
  beyond ASCII are left as they are.
\<close>

definition asciiLower :: "char \<Rightarrow> char" where
  "asciiLower c = (if byteIn c 65 90 then char_of (of_char c + (32 :: nat)) else c)"

definition ToLower :: "string \<Rightarrow> string" where
  "ToLower s = map asciiLower s"

subsection \<open>Command types and the classifier\<close>

type_synonym commandType = string

record typeMatch =
  T :: commandType
  MatchWords :: "string list"

definition builtInType :: string where
  "builtInType = ''BUILTIN_TYPE_BIN''"

definition defaultBind :: string where
  "defaultBind = ''/usr/bin/type''"

definition TypeAlias :: commandType where
  "TypeAlias = ''alias''"

definition TypeKeyword :: commandType where
  "TypeKeyword = ''keyword''"

definition TypeFunction :: commandType where
  "TypeFunction = ''function''"

definition TypeBuiltin :: commandType where
  "TypeBuiltin = ''builtin''"

definition TypeFile :: commandType where
  "TypeFile = ''file''"

definition TypeUnFound :: commandType where
  "TypeUnFound = ''unfound''"

definition types :: "commandType list" where
  "types = [TypeAlias, TypeKeyword, TypeFunction, TypeBuiltin, TypeFile, TypeUnFound]"

definition typesMatches :: "commandType \<rightharpoonup> typeMatch" where
  "typesMatches =
     [TypeAlias \<mapsto> \<lparr>T = TypeAlias, MatchWords = [''alias'']\<rparr>,
      TypeKeyword \<mapsto> \<lparr>T = TypeKeyword, MatchWords = [''word'']\<rparr>,
      TypeFunction \<mapsto> \<lparr>T = TypeFunction, MatchWords = [''shell function'', ''function'']\<rparr>,
      TypeBuiltin \<mapsto> \<lparr>T = TypeBuiltin, MatchWords = [''builtin'']\<rparr>,
      TypeFile \<mapsto> \<lparr>T = TypeFile, MatchWords = [''file'', ''is'']\<rparr>,
      TypeUnFound \<mapsto> \<lparr>T = TypeUnFound, MatchWords = [''not'', ''found'']\<rparr>]"

definition String :: "commandType \<Rightarrow> string" where
  "String ty = ty"

definition Eq :: "commandType \<Rightarrow> string \<Rightarrow> bool" where
  "Eq ty str = EqualFold str (String ty)"

text \<open>The loop over the match words returns at the first word the text contains.\<close>

fun anyContains :: "string \<Rightarrow> string list \<Rightarrow> bool" where
  "anyContains info [] = False"
| "anyContains info (w # ws) = (if Contains info w then True else anyContains info ws)"

definition Match :: "commandType \<Rightarrow> string \<Rightarrow> bool" where
  "Match ty info =
     (if Eq ty info then True
      else (case typesMatches ty of
              Some v \<Rightarrow> anyContains info (MatchWords v)
            | None \<Rightarrow> False))"

fun getType_loop :: "commandType list \<Rightarrow> string \<Rightarrow> commandType" where
  "getType_loop [] info = TypeUnFound"
| "getType_loop (v # vs) info = (if Match v info then v else getType_loop vs info)"

definition getType :: "string \<Rightarrow> commandType" where
  "getType info = getType_loop types info"

subsection \<open>Results\<close>

text \<open>
  A Go \<^verbatim>\<open>error\<close> is its message, \<open>None\<close> for \<^verbatim>\<open>nil\<close>. The fields of \<^verbatim>\<open>Result\<close> are
  \<^verbatim>\<open>output\<close> and \<^verbatim>\<open>err\<close>; they carry the prefix \<open>rs_\<close> here.
\<close>

record Result =
  rs_output :: string
  rs_err :: "string option"

definition NewResult :: Result where
  "NewResult = \<lparr>rs_output = [], rs_err = None\<rparr>"

definition Get :: "Result \<Rightarrow> string" where
  "Get rs = rs_output rs"

definition HasErr :: "Result \<Rightarrow> bool" where
  "HasErr rs = (if rs_err rs = None then False else True)"

definition Err :: "Result \<Rightarrow> string option" where
  "Err rs = rs_err rs"

definition Deal :: "Result \<Rightarrow> (string \<Rightarrow> bool) option \<Rightarrow> bool" where
  "Deal rs handler =
     (case handler of
        None \<Rightarrow> False
      | Some h \<Rightarrow> if HasErr rs then False else h (Get rs))"

subsection \<open>The runner and the operating system around it\<close>

text \<open>
  The handler table maps a mode to a method value of the runner; the three method
  values are named by a datatype and called through \<open>callHandler\<close> below. A nil map
  is \<open>None\<close>. A \<^verbatim>\<open>*os.File\<close> is a descriptor number, \<open>None\<close> for nil. The stream fields
  \<^verbatim>\<open>err\<close>, \<^verbatim>\<open>output\<close> and \<^verbatim>\<open>input\<close> of \<^verbatim>\<open>Runner\<close> carry the prefix \<open>r_\<close>.
\<close>

datatype handler = parseType_fn | parseAll_fn | parsePath_fn

record Runner =
  bin :: string
  r_err :: "nat option"
  r_output :: "nat option"
  r_input :: "nat option"
  flagHandlers :: "(string \<rightharpoonup> handler) option"

text \<open>
  What the runner reads from and does to its surroundings: the environment variables,
  the results of \<^verbatim>\<open>filepath.Abs\<close> (which depends on the working directory; \<open>Inl\<close> is
  its error) and of \<^verbatim>\<open>os.Stat\<close> (its error, if any), what \<^verbatim>\<open>exec.Cmd.Output\<close> gives for a
  program and its arguments (the captured standard output and the error, if any), the
  bytes written so far to every open descriptor (\<open>None\<close> for a descriptor that cannot be
  written), and the subprocesses run so far.
\<close>

record OS =
  os_Getenv :: "string \<Rightarrow> string"
  filepath_Abs :: "string \<Rightarrow> string + string"
  os_Stat :: "string \<Rightarrow> string option"
  cmd_Output :: "string \<Rightarrow> string list \<Rightarrow> string \<times> string option"
  streams :: "nat \<Rightarrow> string option"
  spawned :: "(string \<times> string list) list"

datatype panic = IndexOutOfRange nat nat

definition at_index :: "'a list \<Rightarrow> nat \<Rightarrow> panic + 'a" where
  "at_index xs i = (if i < length xs then Inr (xs ! i) else Inl (IndexOutOfRange i (length xs)))"

definition Stdout :: nat where
  "Stdout = 1"

text \<open>
  \<^verbatim>\<open>fmt.Fprint\<close> of one string and \<^verbatim>\<open>fmt.Fprintln\<close> of strings (operands separated by
  spaces, a newline appended): the number of bytes written, 0 when the write fails,
  as it does on a nil file.
\<close>

definition Fprint :: "nat option \<Rightarrow> string \<Rightarrow> OS \<Rightarrow> nat \<times> OS" where
  "Fprint f s os =
     (case f of
        None \<Rightarrow> (0, os)
      | Some h \<Rightarrow>
          (case streams os h of
             None \<Rightarrow> (0, os)
           | Some written \<Rightarrow> (length s, os\<lparr>streams := (streams os)(h \<mapsto> written @ s)\<rparr>)))"

fun Sprintln :: "string list \<Rightarrow> string" where
  "Sprintln [] = [CHR 10]"
| "Sprintln [a] = a @ [CHR 10]"
| "Sprintln (a # b # bs) = a @ '' '' @ Sprintln (b # bs)"

definition print :: "Runner \<Rightarrow> string \<Rightarrow> OS \<Rightarrow> nat \<times> OS" where
  "print r a os =
     (if r_output r = None then Fprint (Some Stdout) a os
      else Fprint (r_output r) a os)"

definition println :: "Runner \<Rightarrow> string list \<Rightarrow> OS \<Rightarrow> nat \<times> OS" where
  "println r args os =
     (if r_output r = None then Fprint (Some Stdout) (Sprintln args) os
      else Fprint (r_output r) (Sprintln args) os)"

definition errLog :: "Runner \<Rightarrow> string list \<Rightarrow> OS \<Rightarrow> nat \<times> OS" where
  "errLog r args os =
     (if r_output r = None then Fprint (Some Stdout) (Sprintln args) os
      else Fprint (r_err r) (Sprintln args) os)"

definition GetEnvOr :: "OS \<Rightarrow> string \<Rightarrow> string list \<Rightarrow> string" where
  "GetEnvOr os key defaultValue =
     (let defaultValue1 = defaultValue @ [[]]; v = os_Getenv os key
      in if v = [] then hd defaultValue1 else v)"

definition createHandlers :: "string \<rightharpoonup> handler" where
  "createHandlers = [''type'' \<mapsto> parseType_fn, ''all'' \<mapsto> parseAll_fn, ''path'' \<mapsto> parsePath_fn]"

definition SetOut :: "Runner \<Rightarrow> nat option \<Rightarrow> nat option \<Rightarrow> nat option \<Rightarrow> Runner" where
  "SetOut r err input out = r\<lparr>r_err := err, r_input := input, r_output := out\<rparr>"

definition NewRunner :: "OS \<Rightarrow> nat option \<Rightarrow> nat option \<Rightarrow> nat option \<Rightarrow> Runner" where
  "NewRunner os err input out =
     SetOut \<lparr>bin = GetEnvOr os builtInType [defaultBind], r_err = None, r_output = None,
             r_input = None, flagHandlers = Some createHandlers\<rparr> err input out"

text \<open>\<^verbatim>\<open>filepath.IsAbs\<close> on the Unix systems the tool is written for.\<close>

definition IsAbs :: "string \<Rightarrow> bool" where
  "IsAbs path = HasPrefix path ''/''"

definition Bind :: "Runner \<Rightarrow> string \<Rightarrow> OS \<Rightarrow> Runner \<times> OS" where
  "Bind r b os =
     (if b = [] then (r, os)
      else if \<not> IsAbs b then
        (case filepath_Abs os b of
           Inl e \<Rightarrow> (r, snd (errLog r [''ERROR:'', e] os))
         | Inr p \<Rightarrow>
             (case os_Stat os p of
                Some e \<Rightarrow> (r, snd (errLog r [''ERROR:'', e] os))
              | None \<Rightarrow> (r\<lparr>bin := p\<rparr>, os)))
      else (r, os))"

text \<open>
  \<^verbatim>\<open>r.command(args).Output()\<close>: the subprocess is recorded and its captured output and
  error are returned.
\<close>

definition command_Output :: "Runner \<Rightarrow> string list \<Rightarrow> OS \<Rightarrow> (string \<times> string option) \<times> OS" where
  "command_Output r args os =
     (cmd_Output os (bin r) args, os\<lparr>spawned := spawned os @ [(bin r, args)]\<rparr>)"

definition parseType :: "Runner \<Rightarrow> string \<Rightarrow> OS \<Rightarrow> (panic + string \<times> string option) \<times> OS" where
  "parseType r cmd os =
     (case command_Output r [''-a'', cmd] os of
        ((bytes, err), os1) \<Rightarrow>
          if err \<noteq> None then (Inr (String TypeUnFound, None), os1)
          else if length bytes \<le> 0 then (Inr (String TypeUnFound, None), os1)
          else (case at_index (Split bytes [CHR 10]) 0 of
                  Inl p \<Rightarrow> (Inl p, os1)
                | Inr line \<Rightarrow> (Inr (String (getType line), None), os1)))"

definition parseAll :: "Runner \<Rightarrow> string \<Rightarrow> OS \<Rightarrow> (panic + string \<times> string option) \<times> OS" where
  "parseAll r cmd os =
     (case command_Output r [''-a'', cmd] os of
        ((bytes, err), os1) \<Rightarrow>
          if err \<noteq> None then (Inr (cmd @ '' not found'', None), os1)
          else (Inr (bytes, None), os1))"

definition parsePath :: "Runner \<Rightarrow> string \<Rightarrow> OS \<Rightarrow> (panic + string \<times> string option) \<times> OS" where
  "parsePath r cmd os =
     (case command_Output r [''-a'', cmd] os of
        ((bytes, err), os1) \<Rightarrow>
          if err \<noteq> None then (Inr (cmd @ '' not found'', None), os1)
          else
            (let lines = Split bytes [CHR 10] in
             case at_index lines 0 of
               Inl p \<Rightarrow> (Inl p, os1)
             | Inr line0 \<Rightarrow>
                 (let ty = getType line0 in
                  if ty = TypeFile then
                    (let index = (if length lines < 2 then 0 else 1) in
                     case at_index lines index of
                       Inl p \<Rightarrow> (Inl p, os1)
                     | Inr line \<Rightarrow>
                         (case at_index (Split line ''is'') 1 of
                            Inl p \<Rightarrow> (Inl p, os1)
                          | Inr seg \<Rightarrow> (Inr (TrimSpace seg, None), os1)))
                  else (Inr ([], None), os1))))"

fun callHandler :: "handler \<Rightarrow> Runner \<Rightarrow> string \<Rightarrow> OS \<Rightarrow> (panic + string \<times> string option) \<times> OS" where
  "callHandler parseType_fn r cmd os = parseType r cmd os"
| "callHandler parseAll_fn r cmd os = parseAll r cmd os"
| "callHandler parsePath_fn r cmd os = parsePath r cmd os"

definition shortFlagMap :: "string \<rightharpoonup> string" where
  "shortFlagMap = [''-t'' \<mapsto> ''type'', ''-a'' \<mapsto> ''all'', ''-p'' \<mapsto> ''path'']"

definition short2Long :: "string \<Rightarrow> string" where
  "short2Long flag = (case shortFlagMap (ToLower flag) of Some v \<Rightarrow> v | None \<Rightarrow> flag)"

definition check :: "Runner \<Rightarrow> string option \<times> Runner" where
  "check r =
     (let r1 = (if flagHandlers r = None then r\<lparr>flagHandlers := Some createHandlers\<rparr> else r)
      in if bin r1 = [] then (Some (''miss init type built env:'' @ builtInType), r1)
         else (None, r1))"

text \<open>
  \<^verbatim>\<open>Exec\<close> returns the result, or the panic that ended the call, with the runner and the
  surroundings as the call left them.
\<close>

definition Exec :: "Runner \<Rightarrow> string \<Rightarrow> string \<Rightarrow> OS \<Rightarrow> (panic + Result) \<times> Runner \<times> OS" where
  "Exec r flag cmd os =
     (let rs = NewResult in
      case check r of
        (Some err, r1) \<Rightarrow>
          (Inr (rs\<lparr>rs_err := Some err\<rparr>), r1, snd (errLog r1 [''cmd err:'', err] os))
      | (None, r1) \<Rightarrow>
          if cmd = [] then (Inr rs, r1, os)
          else
            (let flag1 = (if HasPrefix flag ''-'' then short2Long flag else flag);
                 handled =
                   (case (case flagHandlers r1 of None \<Rightarrow> None | Some m \<Rightarrow> m flag1) of
                      Some fn \<Rightarrow>
                        (case callHandler fn r1 cmd os of
                           (Inl p, os1) \<Rightarrow> (Inl p, os1)
                         | (Inr (out, err), os1) \<Rightarrow>
                             (Inr (rs\<lparr>rs_output := out, rs_err := err\<rparr>), os1))
                    | None \<Rightarrow> (Inr (rs\<lparr>rs_err := Some (flag1 @ '':flag undefined '')\<rparr>), os))
             in case handled of
                  (Inl p, os1) \<Rightarrow> (Inl p, r1, os1)
                | (Inr rs1, os1) \<Rightarrow>
                    (let out = Get rs1
                     in if HasSuffix out [CHR 10] then (Inr rs1, r1, snd (print r1 out os1))
                        else (Inr rs1, r1, snd (println r1 [out] os1)))))"

subsection \<open>Sample surroundings\<close>

text \<open>
  A system with nothing set in the environment, the working directory \<^verbatim>\<open>/\<close>, every
  path present, every descriptor writable and nothing written or run yet, in which the
  lookup binary behaves as given; and three behaviours of the binary.
\<close>

definition sample_os :: "(string \<Rightarrow> string list \<Rightarrow> string \<times> string option) \<Rightarrow> OS" where
  "sample_os run =
     \<lparr>os_Getenv = (\<lambda>_. []), filepath_Abs = (\<lambda>p. Inr (''/'' @ p)), os_Stat = (\<lambda>_. None),
      cmd_Output = run, streams = (\<lambda>_. Some []), spawned = []\<rparr>"

definition run_fails :: "string \<Rightarrow> string list \<Rightarrow> string \<times> string option" where
  "run_fails name args = ([], Some ''exit status 1'')"

definition run_silent :: "string \<Rightarrow> string list \<Rightarrow> string \<times> string option" where
  "run_silent name args = ([], None)"

definition run_prints :: "string \<Rightarrow> string \<Rightarrow> string list \<Rightarrow> string \<times> string option" where
  "run_prints text name args = (text, None)"

definition zero_Runner :: Runner where
  "zero_Runner = \<lparr>bin = [], r_err = None, r_output = None, r_input = None, flagHandlers = None\<rparr>"

definition sample_listing :: string where
  "sample_listing = ''ls is /usr/bin/ls'' @ [CHR 10] @ ''ls is /bin/ls'' @ [CHR 10]"

subsection \<open>Facts about the string functions\<close>

lemma runes_ascii:
  "\<forall>c\<in>set s. (of_char c :: nat) < 128 \<Longrightarrow> runes s = map (\<lambda>c. (of_char c, [c])) s"
proof (induction s)
  case Nil
  show ?case by (simp add: runes.simps)
next
  case (Cons c cs)
  then have "(of_char c :: nat) < 128" by simp
  then have "runes (c # cs) = (of_char c, [c]) # runes cs"
    by (subst runes.simps) simp
  with Cons show ?case by simp
qed

lemma SimpleFold_upper: "65 \<le> n \<Longrightarrow> n \<le> 90 \<Longrightarrow> SimpleFold n = n + 32"
  by (simp add: SimpleFold_def)

lemma SimpleFold_other:
  "n < 65 \<or> (90 < n \<and> n < 97) \<or> (122 < n \<and> n < 128) \<Longrightarrow> SimpleFold n = n"
  by (auto simp add: SimpleFold_def)

lemma SimpleFold_lower:
  "97 \<le> n \<Longrightarrow> n \<le> 122 \<Longrightarrow> n \<noteq> 107 \<Longrightarrow> n \<noteq> 115 \<Longrightarrow> SimpleFold n = n - 32"
  by (simp add: SimpleFold_def)

lemma SimpleFold_ks:
  "SimpleFold 107 = 8490" "SimpleFold 115 = 383" "SimpleFold 8490 = 75" "SimpleFold 383 = 83"
  by (simp_all add: SimpleFold_def)

lemma foldEq_lower:
  fixes n m :: nat
  assumes "n < 128" "m < 128"
  shows "foldEq n m \<longleftrightarrow>
     (if 65 \<le> n \<and> n \<le> 90 then n + 32 else n) = (if 65 \<le> m \<and> m \<le> 90 then m + 32 else m)"
proof -
  consider (up) "65 \<le> n" "n \<le> 90" | (k) "n = 107" | (s) "n = 115"
    | (lo) "97 \<le> n" "n \<le> 122" "n \<noteq> 107" "n \<noteq> 115"
    | (ot) "n < 65 \<or> (90 < n \<and> n < 97) \<or> (122 < n \<and> n < 128)"
    using assms(1) by linarith
  then show ?thesis
  proof cases
    case up
    show ?thesis
    proof (cases "n = 75 \<or> n = 83")
      case True
      then show ?thesis using assms(2) by (auto simp: foldEq_def SimpleFold_upper SimpleFold_ks)
    next
      case False
      with up have "SimpleFold (SimpleFold n) = n" by (simp add: SimpleFold_def)
      with up show ?thesis using assms(2) by (auto simp: foldEq_def SimpleFold_upper)
    qed
  next
    case k
    then show ?thesis using assms(2) by (auto simp: foldEq_def SimpleFold_ks)
  next
    case s
    then show ?thesis using assms(2) by (auto simp: foldEq_def SimpleFold_ks)
  next
    case lo
    then have "SimpleFold (SimpleFold n) = n" by (simp add: SimpleFold_lower SimpleFold_upper)
    with lo show ?thesis using assms(2) by (auto simp: foldEq_def SimpleFold_lower)
  next
    case ot
    then have "SimpleFold n = n" by (rule SimpleFold_other)
    with ot show ?thesis using assms(2) by (auto simp: foldEq_def)
  qed
qed

lemma of_char_asciiLower:
  "(of_char c :: nat) < 128 \<Longrightarrow>
     (of_char (asciiLower c) :: nat) =
       (if 65 \<le> (of_char c :: nat) \<and> (of_char c :: nat) \<le> 90 then of_char c + 32 else of_char c)"
  by (simp add: asciiLower_def byteIn_def)

lemma foldEq_ascii:
  assumes "(of_char a :: nat) < 128" "(of_char b :: nat) < 128"
  shows "foldEq (of_char a) (of_char b) \<longleftrightarrow> asciiLower a = asciiLower b"
proof -
  have "asciiLower a = asciiLower b \<longleftrightarrow> (of_char (asciiLower a) :: nat) = of_char (asciiLower b)"
    by simp
  also have "\<dots> \<longleftrightarrow> foldEq (of_char a) (of_char b)"
    unfolding of_char_asciiLower[OF assms(1)] of_char_asciiLower[OF assms(2)]
    by (rule foldEq_lower[OF assms, symmetric])
  finally show ?thesis by simp
qed

lemma EqualFold_ascii:
  assumes "\<forall>c\<in>set s. (of_char c :: nat) < 128" "\<forall>c\<in>set t. (of_char c :: nat) < 128"
  shows "EqualFold s t \<longleftrightarrow> ToLower s = ToLower t"
proof -
  have "EqualFold s t \<longleftrightarrow> list_all2 (\<lambda>a b. foldEq (of_char a) (of_char b)) s t"
    by (simp add: EqualFold_def runes_ascii[OF assms(1)] runes_ascii[OF assms(2)]
        list_all2_map1 list_all2_map2)
  also have "\<dots> \<longleftrightarrow> list_all2 (\<lambda>a b. asciiLower a = asciiLower b) s t"
    using assms
    by (auto simp: list_all2_conv_all_nth foldEq_ascii)
  also have "\<dots> \<longleftrightarrow> ToLower s = ToLower t"
    unfolding ToLower_def by (induction s arbitrary: t) (auto simp: list_all2_Cons1)
  finally show ?thesis .
qed

lemma HasPrefix_map: "HasPrefix s w \<Longrightarrow> HasPrefix (map f s) (map f w)"
  by (simp add: take_map)

lemma Contains_map: "Contains s w \<Longrightarrow> Contains (map f s) (map f w)"
proof (induction s)
  case Nil
  then show ?case by simp
next
  case (Cons c cs)
  then show ?case using HasPrefix_map[of "c # cs" w f] by auto
qed

lemma asciiLower_ascii:
  "(of_char (asciiLower c) :: nat) < 128 \<Longrightarrow> (of_char c :: nat) < 128"
  by (auto simp: asciiLower_def byteIn_def split: if_splits)

lemma Contains_append: "Contains (a @ w @ b) w"
  by (induction a) (auto simp: neq_Nil_conv, (cases w; cases b; simp)+)

subsection \<open>The classifier returns the first category that matches\<close>

lemma getType_loop_first:
  "Match t info \<Longrightarrow> t \<in> set ts \<Longrightarrow>
     \<exists>earlier later. ts = earlier @ getType_loop ts info # later
        \<and> (\<forall>ty\<in>set earlier. \<not> Match ty info)
        \<and> Match (getType_loop ts info) info
        \<and> (getType_loop ts info = t \<or> t \<in> set later)"
proof (induction ts)
  case Nil
  then show ?case by simp
next
  case (Cons v vs)
  show ?case
  proof (cases "Match v info")
    case True
    then have "v # vs = [] @ getType_loop (v # vs) info # vs" by simp
    moreover have "getType_loop (v # vs) info = t \<or> t \<in> set vs"
      using Cons.prems(2) True by auto
    ultimately show ?thesis using True by (metis empty_iff getType_loop.simps(2) list.set(1))
  next
    case False
    with Cons.prems have "t \<in> set vs" by auto
    from Cons.IH[OF Cons.prems(1) this] obtain earlier later where
      "vs = earlier @ getType_loop vs info # later"
      "\<forall>ty\<in>set earlier. \<not> Match ty info"
      "Match (getType_loop vs info) info"
      "getType_loop vs info = t \<or> t \<in> set later"
      by blast
    with False have
      "v # vs = (v # earlier) @ getType_loop (v # vs) info # later
        \<and> (\<forall>ty\<in>set (v # earlier). \<not> Match ty info)
        \<and> Match (getType_loop (v # vs) info) info
        \<and> (getType_loop (v # vs) info = t \<or> t \<in> set later)"
      by simp
    then show ?thesis by blast
  qed
qed

lemma anyContains_iff: "anyContains info ws \<longleftrightarrow> (\<exists>w\<in>set ws. Contains info w)"
  by (induction ws) auto


lemmas type_names =
  TypeAlias_def TypeKeyword_def TypeFunction_def TypeBuiltin_def TypeFile_def TypeUnFound_def

lemma getType_first:
  "Match t info \<Longrightarrow> t \<in> set types \<Longrightarrow>
     \<exists>earlier later. types = earlier @ getType info # later
        \<and> (\<forall>ty\<in>set earlier. \<not> Match ty info)
        \<and> Match (getType info) info
        \<and> (getType info = t \<or> t \<in> set later)"
  unfolding getType_def by (rule getType_loop_first)

lemma types_ascii: "t \<in> set types \<Longrightarrow> \<forall>c\<in>set t. (of_char c :: nat) < 128"
  by (auto simp: types_def type_names)

lemma types_lower: "t \<in> set types \<Longrightarrow> ToLower t = t"
  by (auto simp: types_def type_names ToLower_def asciiLower_def byteIn_def)

lemma words_lower:
  "typesMatches t = Some v \<Longrightarrow> w \<in> set (MatchWords v) \<Longrightarrow> ToLower w = w"
  by (auto simp: typesMatches_def type_names ToLower_def asciiLower_def byteIn_def
      split: if_splits)

lemma casing_ascii:
  assumes "ToLower s = ty" "ty \<in> set types"
  shows "\<forall>c\<in>set s. (of_char c :: nat) < 128"
proof
  fix c assume "c \<in> set s"
  then have "asciiLower c \<in> set ty" using assms(1) by (auto simp: ToLower_def)
  then have "(of_char (asciiLower c) :: nat) < 128" using types_ascii[OF assms(2)] by blast
  then show "(of_char c :: nat) < 128" by (rule asciiLower_ascii)
qed

lemma Eq_casing:
  assumes "ToLower s = ty" "ty \<in> set types" "t \<in> set types"
  shows "Eq t s \<longleftrightarrow> t = ty"
proof -
  have "Eq t s \<longleftrightarrow> ToLower s = ToLower t"
    unfolding Eq_def String_def
    by (rule EqualFold_ascii[OF casing_ascii[OF assms(1,2)] types_ascii[OF assms(3)]])
  then show ?thesis using assms(1) types_lower[OF assms(3)] by auto
qed

lemma Match_casing:
  assumes "ToLower s = ty" "ty \<in> set types" "t \<in> set types" "Match t s"
  shows "t = ty \<or> (\<exists>v. typesMatches t = Some v \<and> anyContains ty (MatchWords v))"
proof (cases "Eq t s")
  case True
  then show ?thesis using Eq_casing[OF assms(1-3)] by simp
next
  case False
  with assms(4) obtain v where v: "typesMatches t = Some v" "anyContains s (MatchWords v)"
    by (auto simp: Match_def split: option.splits)
  then obtain w where w: "w \<in> set (MatchWords v)" "Contains s w"
    by (auto simp: anyContains_iff)
  have "Contains (ToLower s) (ToLower w)"
    unfolding ToLower_def using w(2) by (rule Contains_map)
  then have "Contains ty w" using assms(1) words_lower[OF v(1) w(1)] by simp
  with w(1) v(1) show ?thesis by (auto simp: anyContains_iff)
qed

text \<open>
  C6. A line that is one of the six category names in any casing (its ASCII letters
  lower-cased give the name) is classified as exactly that category.
\<close>

theorem getType_category_name_any_casing:
  assumes "ty \<in> set types" and "ToLower s = ty"
  shows "getType s = ty"
proof -
  have self: "Match ty s"
    using Eq_casing[OF assms(2) assms(1) assms(1)] by (simp add: Match_def)
  have earlier: "\<not> Match t s"
    if "t \<in> set types" "t \<noteq> ty"
       "\<And>v. typesMatches t = Some v \<Longrightarrow> \<not> anyContains ty (MatchWords v)" for t
    using Match_casing[OF assms(2) assms(1) that(1)] that(2,3) by blast
  from assms(1) consider "ty = TypeAlias" | "ty = TypeKeyword" | "ty = TypeFunction"
    | "ty = TypeBuiltin" | "ty = TypeFile" | "ty = TypeUnFound"
    by (auto simp: types_def)
  then show ?thesis
  proof cases
    case 1
    with self show ?thesis by (simp add: getType_def types_def)
  next
    case 2
    have "\<not> Match TypeAlias s"
      by (rule earlier) (auto simp: 2 types_def typesMatches_def type_names)
    with self 2 show ?thesis by (simp add: getType_def types_def)
  next
    case 3
    have "\<not> Match TypeAlias s" "\<not> Match TypeKeyword s"
      by (rule earlier; auto simp: 3 types_def typesMatches_def type_names)+
    with self 3 show ?thesis by (simp add: getType_def types_def)
  next
    case 4
    have "\<not> Match TypeAlias s" "\<not> Match TypeKeyword s" "\<not> Match TypeFunction s"
      by (rule earlier; auto simp: 4 types_def typesMatches_def type_names)+
    with self 4 show ?thesis by (simp add: getType_def types_def)
  next
    case 5
    have "\<not> Match TypeAlias s" "\<not> Match TypeKeyword s" "\<not> Match TypeFunction s"
      "\<not> Match TypeBuiltin s"
      by (rule earlier; auto simp: 5 types_def typesMatches_def type_names)+
    with self 5 show ?thesis by (simp add: getType_def types_def)
  next
    case 6
    have "\<not> Match TypeAlias s" "\<not> Match TypeKeyword s" "\<not> Match TypeFunction s"
      "\<not> Match TypeBuiltin s" "\<not> Match TypeFile s"
      by (rule earlier; auto simp: 6 types_def typesMatches_def type_names)+
    with self 6 show ?thesis by (simp add: getType_def types_def)
  qed
qed

theorem getType_category_name_any_casing_witness:
  "TypeBuiltin \<in> set types \<and> ToLower ''BUILTIN'' = TypeBuiltin
     \<and> getType ''BUILTIN'' = TypeBuiltin"
proof -
  have mem: "TypeBuiltin \<in> set types" by (simp add: types_def)
  have low: "ToLower ''BUILTIN'' = TypeBuiltin"
    by code_simp
  from getType_category_name_any_casing[OF mem low] mem low show ?thesis by simp
qed


text \<open>
  C7. When a line matches two or more categories, the classifier returns the one that
  comes first in \<open>types\<close>: the list splits at the returned category, which matches,
  and no category before it matches. A line with both \<open>alias\<close> and \<open>function\<close> in
  it is an alias.
\<close>

theorem getType_first_match_wins:
  assumes "a \<in> set types" and "b \<in> set types" and "a \<noteq> b"
    and "Match a info" and "Match b info"
  shows "\<exists>earlier later. types = earlier @ getType info # later
           \<and> (\<forall>ty\<in>set earlier. \<not> Match ty info)
           \<and> Match (getType info) info
           \<and> (getType info = a \<or> a \<in> set later)
           \<and> (getType info = b \<or> b \<in> set later)"
proof -
  from getType_first[OF assms(4) assms(1)] obtain e1 l1 where
    one: "types = e1 @ getType info # l1" "\<forall>ty\<in>set e1. \<not> Match ty info"
      "Match (getType info) info" "getType info = a \<or> a \<in> set l1"
    by blast
  have "distinct types" by (simp add: types_def type_names)
  then have "b \<notin> set e1 \<or> \<not> Match b info" using one(2) by blast
  with assms(5) have "b \<notin> set e1" by blast
  with assms(2) one(1) have "getType info = b \<or> b \<in> set l1"
    by (metis Un_iff set_ConsD set_append)
  with one show ?thesis by blast
qed

theorem getType_first_match_wins_witness:
  "TypeAlias \<in> set types \<and> TypeFunction \<in> set types \<and> TypeAlias \<noteq> TypeFunction
     \<and> Match TypeAlias ''ll: aliased function wrapper''
     \<and> Match TypeFunction ''ll: aliased function wrapper''
     \<and> getType ''ll: aliased function wrapper'' = TypeAlias
     \<and> (\<exists>earlier later. types = earlier @ getType ''ll: aliased function wrapper'' # later
           \<and> (\<forall>ty\<in>set earlier. \<not> Match ty ''ll: aliased function wrapper'')
           \<and> Match (getType ''ll: aliased function wrapper'') ''ll: aliased function wrapper''
           \<and> (getType ''ll: aliased function wrapper'' = TypeAlias \<or> TypeAlias \<in> set later)
           \<and> (getType ''ll: aliased function wrapper'' = TypeFunction
                 \<or> TypeFunction \<in> set later))"
proof -
  have h1: "TypeAlias \<in> set types" and h2: "TypeFunction \<in> set types"
    by (simp_all add: types_def)
  have h3: "TypeAlias \<noteq> TypeFunction" by (simp add: type_names)
  have h4: "Match TypeAlias ''ll: aliased function wrapper''" by code_simp
  have h5: "Match TypeFunction ''ll: aliased function wrapper''" by code_simp
  have v: "getType ''ll: aliased function wrapper'' = TypeAlias" by code_simp
  from getType_first_match_wins[OF h1 h2 h3 h4 h5] h1 h2 h3 h4 h5 v show ?thesis by blast
qed

text \<open>
  C1 (as amended). The substring test is case-sensitive. A line that contains one of a
  category's match phrases exactly as listed is classified as the first category of
  \<open>types\<close> that matches it: the list splits at the returned category, which matches
  the line, no category before it matches, and the category of the phrase is the
  returned one or a later one.
\<close>

theorem getType_phrase_substring:
  assumes "ty \<in> set types" and "typesMatches ty = Some v"
    and "w \<in> set (MatchWords v)" and "Contains info w"
  shows "\<exists>earlier later. types = earlier @ getType info # later
           \<and> (\<forall>t\<in>set earlier. \<not> Match t info)
           \<and> Match (getType info) info
           \<and> (getType info = ty \<or> ty \<in> set later)"
proof -
  have "Match ty info"
    using assms(2-4) by (auto simp: Match_def anyContains_iff)
  from getType_first[OF this assms(1)] show ?thesis by blast
qed

theorem getType_phrase_substring_witness:
  "TypeBuiltin \<in> set types
     \<and> typesMatches TypeBuiltin = Some \<lparr>T = TypeBuiltin, MatchWords = [''builtin'']\<rparr>
     \<and> ''builtin'' \<in> set (MatchWords \<lparr>T = TypeBuiltin, MatchWords = [''builtin'']\<rparr>)
     \<and> Contains ''cd is a shell builtin'' ''builtin''
     \<and> getType ''cd is a shell builtin'' = TypeBuiltin
     \<and> (\<exists>earlier later. types = earlier @ getType ''cd is a shell builtin'' # later
           \<and> (\<forall>t\<in>set earlier. \<not> Match t ''cd is a shell builtin'')
           \<and> Match (getType ''cd is a shell builtin'') ''cd is a shell builtin''
           \<and> (getType ''cd is a shell builtin'' = TypeBuiltin \<or> TypeBuiltin \<in> set later))"
proof -
  have h1: "TypeBuiltin \<in> set types" by (simp add: types_def)
  have h2: "typesMatches TypeBuiltin = Some \<lparr>T = TypeBuiltin, MatchWords = [''builtin'']\<rparr>"
    by (simp add: typesMatches_def type_names)
  have h3: "''builtin'' \<in> set (MatchWords \<lparr>T = TypeBuiltin, MatchWords = [''builtin'']\<rparr>)"
    by simp
  have h4: "Contains ''cd is a shell builtin'' ''builtin''" by simp
  have v: "getType ''cd is a shell builtin'' = TypeBuiltin" by code_simp
  from getType_phrase_substring[OF h1 h2 h3 h4] h1 h2 h3 h4 v show ?thesis by blast
qed

theorem getType_uppercase_phrase_counterexample:
  "Contains (ToLower ''ALIASED'') ''alias'' \<and> \<not> Contains ''ALIASED'' ''alias''
     \<and> getType ''ALIASED'' = TypeUnFound \<and> getType ''ALIASED'' \<noteq> TypeAlias
     \<and> Contains (ToLower ''Shell Builtin'') ''builtin''
     \<and> getType ''Shell Builtin'' = TypeUnFound \<and> getType ''Shell Builtin'' \<noteq> TypeBuiltin"
  by code_simp


subsection \<open>The dispatcher\<close>

lemma check_bound:
  assumes "bin r \<noteq> []" and "flagHandlers r = None \<or> flagHandlers r = Some createHandlers"
  shows "check r = (None, r\<lparr>flagHandlers := Some createHandlers\<rparr>)"
  using assms by (auto simp: check_def)

lemma Exec_handled:
  assumes "bin r \<noteq> []" and "flagHandlers r = None \<or> flagHandlers r = Some createHandlers"
    and "cmd \<noteq> []"
    and "createHandlers (if HasPrefix flag ''-'' then short2Long flag else flag) = Some fn"
    and "callHandler fn (r\<lparr>flagHandlers := Some createHandlers\<rparr>) cmd os = (Inr (out, err), os1)"
  shows "fst (Exec r flag cmd os) = Inr \<lparr>rs_output = out, rs_err = err\<rparr>"
  using assms(3-5) unfolding Exec_def check_bound[OF assms(1,2)]
  by (simp add: Let_def NewResult_def del: HasPrefix.simps HasSuffix.simps)

lemma Fprint_spawned: "spawned (snd (Fprint f a os)) = spawned os"
  by (simp add: Fprint_def split: option.splits)

lemma println_spawned: "spawned (snd (println r args os)) = spawned os"
  by (simp add: println_def Fprint_spawned)

text \<open>
  The handler table of a runner is nil or the table that \<open>createHandlers\<close> builds:
  \<open>NewRunner\<close> stores the table, \<open>Bind\<close> keeps what it finds, and \<open>check\<close>, the
  only other function that assigns the field, replaces nil by the table. The theorems
  about \<open>Exec\<close> below assume this of the runner they start from.
\<close>

lemma NewRunner_flagHandlers:
  "flagHandlers (NewRunner os err input out) = Some createHandlers"
  by (simp add: NewRunner_def SetOut_def)

lemma Bind_flagHandlers:
  "flagHandlers (fst (Bind r b os)) = flagHandlers r"
  by (simp add: Bind_def split: sum.splits option.splits)

lemma check_flagHandlers:
  assumes "flagHandlers r = None \<or> flagHandlers r = Some createHandlers"
  shows "flagHandlers (snd (check r)) = Some createHandlers"
  using assms by (auto simp: check_def Let_def)

text \<open>
  C2 (as amended). In path mode an invocation that fails to run or exits with an error
  gives the text \<open>cmd not found\<close> as output, with no error.
\<close>

theorem Exec_path_lookup_failure:
  assumes "bin r \<noteq> []" and "flagHandlers r = None \<or> flagHandlers r = Some createHandlers"
    and "cmd \<noteq> []"
    and "snd (cmd_Output os (bin r) [''-a'', cmd]) = Some e"
  shows "fst (Exec r ''path'' cmd os) = Inr \<lparr>rs_output = cmd @ '' not found'', rs_err = None\<rparr>"
proof -
  obtain bytes where "cmd_Output os (bin r) [''-a'', cmd] = (bytes, Some e)"
    using assms(4) by (cases "cmd_Output os (bin r) [''-a'', cmd]") auto
  then have "callHandler parsePath_fn (r\<lparr>flagHandlers := Some createHandlers\<rparr>) cmd os
          = (Inr (cmd @ '' not found'', None), os\<lparr>spawned := spawned os @ [(bin r, [''-a'', cmd])]\<rparr>)"
    by (simp add: parsePath_def command_Output_def)
  moreover have "createHandlers (if HasPrefix ''path'' ''-'' then short2Long ''path'' else ''path'')
          = Some parsePath_fn"
    by (simp add: createHandlers_def)
  ultimately show ?thesis by (rule Exec_handled[OF assms(1-3), rotated])
qed

theorem Exec_path_lookup_failure_witness:
  "bin (NewRunner (sample_os run_fails) (Some 2) (Some 0) (Some 1)) \<noteq> []
     \<and> flagHandlers (NewRunner (sample_os run_fails) (Some 2) (Some 0) (Some 1))
          = Some createHandlers
     \<and> ''ls'' \<noteq> []
     \<and> snd (cmd_Output (sample_os run_fails)
              (bin (NewRunner (sample_os run_fails) (Some 2) (Some 0) (Some 1))) [''-a'', ''ls''])
          = Some ''exit status 1''
     \<and> fst (Exec (NewRunner (sample_os run_fails) (Some 2) (Some 0) (Some 1)) ''path'' ''ls''
              (sample_os run_fails))
          = Inr \<lparr>rs_output = ''ls not found'', rs_err = None\<rparr>"
proof -
  let ?r = "NewRunner (sample_os run_fails) (Some 2) (Some 0) (Some 1)"
  have h1: "bin ?r \<noteq> []"
    by (simp add: NewRunner_def SetOut_def GetEnvOr_def sample_os_def defaultBind_def)
  have h2: "flagHandlers ?r = Some createHandlers" by (simp add: NewRunner_def SetOut_def)
  have h3: "''ls'' \<noteq> []" by simp
  have h4: "snd (cmd_Output (sample_os run_fails) (bin ?r) [''-a'', ''ls'']) = Some ''exit status 1''"
    by (simp add: sample_os_def run_fails_def)
  from Exec_path_lookup_failure[OF h1 disjI2[OF h2] h3 h4] h1 h2 h3 h4 show ?thesis by simp
qed

theorem Exec_path_lookup_failure_counterexample:
  "snd (cmd_Output (sample_os run_fails) ''/usr/bin/type'' [''-a'', ''ls'']) \<noteq> None
     \<and> fst (Exec (NewRunner (sample_os run_fails) (Some 2) (Some 0) (Some 1)) ''path'' ''ls''
              (sample_os run_fails))
          = Inr \<lparr>rs_output = ''ls not found'', rs_err = None\<rparr>
     \<and> ''ls not found'' \<noteq> []"
  by code_simp


text \<open>
  C5 (as amended). In all mode an invocation that fails to run or exits with an error
  gives the text \<open>cmd not found\<close>; one that succeeds gives its output as it is, also
  when the output is empty.
\<close>

theorem Exec_all_output:
  assumes "bin r \<noteq> []" and "flagHandlers r = None \<or> flagHandlers r = Some createHandlers"
    and "cmd \<noteq> []"
  shows "fst (Exec r ''all'' cmd os) =
           Inr \<lparr>rs_output =
                  (case cmd_Output os (bin r) [''-a'', cmd] of
                     (bytes, None) \<Rightarrow> bytes
                   | (bytes, Some e) \<Rightarrow> cmd @ '' not found''),
                rs_err = None\<rparr>"
proof -
  obtain bytes err where run: "cmd_Output os (bin r) [''-a'', cmd] = (bytes, err)"
    by (cases "cmd_Output os (bin r) [''-a'', cmd]")
  then have "callHandler parseAll_fn (r\<lparr>flagHandlers := Some createHandlers\<rparr>) cmd os
          = (Inr (case err of None \<Rightarrow> bytes | Some e \<Rightarrow> cmd @ '' not found'', None),
             os\<lparr>spawned := spawned os @ [(bin r, [''-a'', cmd])]\<rparr>)"
    by (simp add: parseAll_def command_Output_def split: option.splits)
  moreover have "createHandlers (if HasPrefix ''all'' ''-'' then short2Long ''all'' else ''all'')
          = Some parseAll_fn"
    by (simp add: createHandlers_def)
  ultimately have "fst (Exec r ''all'' cmd os)
      = Inr \<lparr>rs_output = (case err of None \<Rightarrow> bytes | Some e \<Rightarrow> cmd @ '' not found''),
             rs_err = None\<rparr>"
    by (rule Exec_handled[OF assms(1-3), rotated])
  then show ?thesis by (simp add: run)
qed

theorem Exec_all_output_witness:
  "bin (NewRunner (sample_os run_silent) (Some 2) (Some 0) (Some 1)) \<noteq> []
     \<and> flagHandlers (NewRunner (sample_os run_silent) (Some 2) (Some 0) (Some 1))
          = Some createHandlers
     \<and> ''ls'' \<noteq> []
     \<and> fst (Exec (NewRunner (sample_os run_silent) (Some 2) (Some 0) (Some 1)) ''all'' ''ls''
              (sample_os run_silent))
          = Inr \<lparr>rs_output = [], rs_err = None\<rparr>"
proof -
  let ?r = "NewRunner (sample_os run_silent) (Some 2) (Some 0) (Some 1)"
  have h1: "bin ?r \<noteq> []"
    by (simp add: NewRunner_def SetOut_def GetEnvOr_def sample_os_def defaultBind_def)
  have h2: "flagHandlers ?r = Some createHandlers" by (simp add: NewRunner_def SetOut_def)
  have h3: "''ls'' \<noteq> []" by simp
  have "cmd_Output (sample_os run_silent) (bin ?r) [''-a'', ''ls''] = ([], None)"
    by (simp add: sample_os_def run_silent_def)
  with Exec_all_output[OF h1 disjI2[OF h2] h3, of "sample_os run_silent"] h1 h2 h3
  show ?thesis by simp
qed

theorem Exec_all_empty_output_counterexample:
  "cmd_Output (sample_os run_silent) ''/usr/bin/type'' [''-a'', ''ls''] = ([], None)
     \<and> fst (Exec (NewRunner (sample_os run_silent) (Some 2) (Some 0) (Some 1)) ''all'' ''ls''
              (sample_os run_silent))
          = Inr \<lparr>rs_output = [], rs_err = None\<rparr>
     \<and> [] \<noteq> ''ls not found''"
  by code_simp

text \<open>
  C8. With the lookup binary bound, an empty command name does nothing in every mode:
  the result has no output and no error, and nothing is written or run.
\<close>

theorem Exec_empty_command:
  assumes "bin r \<noteq> []"
  shows "fst (Exec r mode [] os) = Inr \<lparr>rs_output = [], rs_err = None\<rparr>
           \<and> snd (snd (Exec r mode [] os)) = os"
  using assms by (simp add: Exec_def check_def NewResult_def Let_def)

theorem Exec_empty_command_witness:
  "bin (NewRunner (sample_os run_fails) (Some 2) (Some 0) (Some 1)) \<noteq> []
     \<and> fst (Exec (NewRunner (sample_os run_fails) (Some 2) (Some 0) (Some 1)) ''type'' []
              (sample_os run_fails))
          = Inr \<lparr>rs_output = [], rs_err = None\<rparr>
     \<and> snd (snd (Exec (NewRunner (sample_os run_fails) (Some 2) (Some 0) (Some 1)) ''type'' []
              (sample_os run_fails)))
          = sample_os run_fails"
proof -
  let ?r = "NewRunner (sample_os run_fails) (Some 2) (Some 0) (Some 1)"
  have h1: "bin ?r \<noteq> []"
    by (simp add: NewRunner_def SetOut_def GetEnvOr_def sample_os_def defaultBind_def)
  from Exec_empty_command[OF h1, of "''type''" "sample_os run_fails"] h1 show ?thesis by simp
qed

text \<open>
  C9 (as amended). With the lookup binary bound and a non-empty command name, a mode
  that after short-flag normalisation is none of \<open>type\<close>, \<open>all\<close> and \<open>path\<close> gives a
  result whose error contains \<open>flag undefined\<close>, and no subprocess is run.
\<close>

theorem Exec_undefined_flag:
  assumes "bin r \<noteq> []" and "flagHandlers r = None \<or> flagHandlers r = Some createHandlers"
    and "cmd \<noteq> []"
    and "mode = (if HasPrefix flag ''-'' then short2Long flag else flag)"
    and "mode \<noteq> ''type''" and "mode \<noteq> ''all''" and "mode \<noteq> ''path''"
  shows "\<exists>rs r1 os1. Exec r flag cmd os = (Inr rs, r1, os1)
           \<and> rs_output rs = []
           \<and> rs_err rs = Some (mode @ '':flag undefined '')
           \<and> Contains (mode @ '':flag undefined '') ''flag undefined''
           \<and> spawned os1 = spawned os"
proof -
  have none: "createHandlers mode = None"
    using assms(5-7) by (simp add: createHandlers_def)
  have "Contains (mode @ '':'' @ ''flag undefined'' @ '' '') ''flag undefined''"
    using Contains_append[of "mode @ '':''" "''flag undefined''" "'' ''"]
    by (simp only: append_assoc)
  then have found: "Contains (mode @ '':flag undefined '') ''flag undefined''" by simp
  have "Exec r flag cmd os =
          (Inr \<lparr>rs_output = [], rs_err = Some (mode @ '':flag undefined '')\<rparr>,
           r\<lparr>flagHandlers := Some createHandlers\<rparr>,
           snd (println (r\<lparr>flagHandlers := Some createHandlers\<rparr>) [[]] os))"
    using assms(3) none unfolding Exec_def check_bound[OF assms(1,2)] assms(4)[symmetric]
    by (simp add: Let_def NewResult_def Get_def del: HasPrefix.simps)
  with found show ?thesis by (simp add: println_spawned del: Contains.simps)
qed

theorem Exec_undefined_flag_witness:
  "bin (NewRunner (sample_os run_fails) (Some 2) (Some 0) (Some 1)) \<noteq> []
     \<and> flagHandlers (NewRunner (sample_os run_fails) (Some 2) (Some 0) (Some 1))
          = Some createHandlers
     \<and> ''ls'' \<noteq> []
     \<and> ''unknown_flag''
          = (if HasPrefix ''unknown_flag'' ''-'' then short2Long ''unknown_flag''
             else ''unknown_flag'')
     \<and> ''unknown_flag'' \<noteq> ''type'' \<and> ''unknown_flag'' \<noteq> ''all''
     \<and> ''unknown_flag'' \<noteq> ''path''
     \<and> (\<exists>rs r1 os1.
           Exec (NewRunner (sample_os run_fails) (Some 2) (Some 0) (Some 1)) ''unknown_flag''
             ''ls'' (sample_os run_fails) = (Inr rs, r1, os1)
           \<and> rs_output rs = []
           \<and> rs_err rs = Some ''unknown_flag:flag undefined ''
           \<and> Contains ''unknown_flag:flag undefined '' ''flag undefined''
           \<and> spawned os1 = [])"
proof -
  let ?r = "NewRunner (sample_os run_fails) (Some 2) (Some 0) (Some 1)"
  have h1: "bin ?r \<noteq> []"
    by (simp add: NewRunner_def SetOut_def GetEnvOr_def sample_os_def defaultBind_def)
  have h2: "flagHandlers ?r = Some createHandlers" by (simp add: NewRunner_def SetOut_def)
  have h3: "''ls'' \<noteq> []" by simp
  have h4: "''unknown_flag''
      = (if HasPrefix ''unknown_flag'' ''-'' then short2Long ''unknown_flag''
         else ''unknown_flag'')"
    by simp
  have h5: "''unknown_flag'' \<noteq> ''type''" "''unknown_flag'' \<noteq> ''all''"
    "''unknown_flag'' \<noteq> ''path''"
    by simp_all
  have sp: "spawned (sample_os run_fails) = []" by (simp add: sample_os_def)
  from Exec_undefined_flag[OF h1 disjI2[OF h2] h3 h4 h5, of "sample_os run_fails"]
  obtain rs r1 os1 where
    "Exec ?r ''unknown_flag'' ''ls'' (sample_os run_fails) = (Inr rs, r1, os1)"
    "rs_output rs = []" "rs_err rs = Some (''unknown_flag'' @ '':flag undefined '')"
    "Contains (''unknown_flag'' @ '':flag undefined '') ''flag undefined''"
    "spawned os1 = spawned (sample_os run_fails)"
    by blast
  then have "Exec ?r ''unknown_flag'' ''ls'' (sample_os run_fails) = (Inr rs, r1, os1)
           \<and> rs_output rs = []
           \<and> rs_err rs = Some ''unknown_flag:flag undefined ''
           \<and> Contains ''unknown_flag:flag undefined '' ''flag undefined''
           \<and> spawned os1 = []"
    by (simp add: sp del: Contains.simps)
  then have "\<exists>rs r1 os1.
           Exec ?r ''unknown_flag'' ''ls'' (sample_os run_fails) = (Inr rs, r1, os1)
           \<and> rs_output rs = []
           \<and> rs_err rs = Some ''unknown_flag:flag undefined ''
           \<and> Contains ''unknown_flag:flag undefined '' ''flag undefined''
           \<and> spawned os1 = []"
    by blast
  with h1 h2 h3 h4 h5 show ?thesis by blast
qed

theorem Exec_undefined_flag_unbound_counterexample:
  "(if HasPrefix ''unknown_flag'' ''-'' then short2Long ''unknown_flag'' else ''unknown_flag'')
       \<notin> {''type'', ''all'', ''path''}
     \<and> ''ls'' \<noteq> []
     \<and> fst (Exec zero_Runner ''unknown_flag'' ''ls'' (sample_os run_fails))
          = Inr \<lparr>rs_output = [], rs_err = Some ''miss init type built env:BUILTIN_TYPE_BIN''\<rparr>
     \<and> \<not> Contains ''miss init type built env:BUILTIN_TYPE_BIN'' ''flag undefined''"
  by code_simp


lemma asciiLower_dash: "asciiLower c = CHR ''-'' \<Longrightarrow> c = CHR ''-''"
proof (cases "byteIn c 65 90")
  case True
  assume low: "asciiLower c = CHR ''-''"
  from True have "(of_char (asciiLower c) :: nat) = of_char c + 32"
    by (simp add: asciiLower_def byteIn_def)
  with True low show ?thesis by (simp add: byteIn_def)
next
  case False
  assume "asciiLower c = CHR ''-''"
  with False show ?thesis by (simp add: asciiLower_def)
qed

lemma short_flag_has_dash:
  assumes "shortFlagMap (ToLower flag) = Some mode"
  shows "HasPrefix flag ''-''"
proof -
  from assms have "ToLower flag = ''-t'' \<or> ToLower flag = ''-a'' \<or> ToLower flag = ''-p''"
    by (auto simp: shortFlagMap_def split: if_splits)
  then obtain c cs where "flag = c # cs" "asciiLower c = CHR ''-''"
    by (cases flag) (auto simp: ToLower_def)
  then show ?thesis using asciiLower_dash by simp
qed

lemma long_mode_no_dash:
  assumes "shortFlagMap key = Some mode"
  shows "\<not> HasPrefix mode ''-''"
  using assms by (auto simp: shortFlagMap_def split: if_splits)

lemma Exec_dispatch:
  assumes "bin r \<noteq> []" and "flagHandlers r = None \<or> flagHandlers r = Some createHandlers"
    and "cmd \<noteq> []"
    and "createHandlers (if HasPrefix flag ''-'' then short2Long flag else flag) = Some fn"
  shows "Exec r flag cmd os =
           (case callHandler fn (r\<lparr>flagHandlers := Some createHandlers\<rparr>) cmd os of
              (Inl p, os1) \<Rightarrow> (Inl p, r\<lparr>flagHandlers := Some createHandlers\<rparr>, os1)
            | (Inr (out, err), os1) \<Rightarrow>
                (Inr \<lparr>rs_output = out, rs_err = err\<rparr>,
                 r\<lparr>flagHandlers := Some createHandlers\<rparr>,
                 snd (if HasSuffix out [CHR 10]
                      then print (r\<lparr>flagHandlers := Some createHandlers\<rparr>) out os1
                      else println (r\<lparr>flagHandlers := Some createHandlers\<rparr>) [out] os1)))"
proof -
  obtain res os1 where call:
    "callHandler fn (r\<lparr>flagHandlers := Some createHandlers\<rparr>) cmd os = (res, os1)"
    by (cases "callHandler fn (r\<lparr>flagHandlers := Some createHandlers\<rparr>) cmd os")
  show ?thesis
  proof (cases res)
    case (Inl p)
    with call assms(3,4) show ?thesis
      unfolding Exec_def check_bound[OF assms(1,2)]
      by (simp add: Let_def NewResult_def del: HasPrefix.simps HasSuffix.simps)
  next
    case (Inr pair)
    obtain out err where "pair = (out, err)" by (cases pair)
    with Inr call assms(3,4) show ?thesis
      unfolding Exec_def check_bound[OF assms(1,2)]
      by (simp add: Let_def NewResult_def Get_def del: HasPrefix.simps HasSuffix.simps)
  qed
qed

lemma Exec_dispatch_result:
  assumes "Exec r flag cmd os =
             (case callHandler fn r1 cmd os of
                (Inl p, os1) \<Rightarrow> (Inl p, r1, os1)
              | (Inr (out, err), os1) \<Rightarrow>
                  (Inr \<lparr>rs_output = out, rs_err = err\<rparr>, r1,
                   snd (if HasSuffix out [CHR 10] then print r1 out os1
                        else println r1 [out] os1)))"
    and "fst (callHandler fn r1 cmd os) = Inr (text, e)"
  shows "fst (Exec r flag cmd os) = Inr \<lparr>rs_output = text, rs_err = e\<rparr>"
proof -
  obtain os1 where "callHandler fn r1 cmd os = (Inr (text, e), os1)"
    using assms(2) by (cases "callHandler fn r1 cmd os") auto
  then show ?thesis unfolding assms(1) by (simp del: HasSuffix.simps)
qed

text \<open>
  C10. A flag whose lower-cased form is one of the short flags \<open>-t\<close>, \<open>-a\<close>, \<open>-p\<close>
  is normalised to the long mode of that short flag, and the call does exactly what the
  call with the long mode does. On a bound runner with a command name, that is the call
  of the handler registered for the long mode (\<open>parseType\<close> for \<open>-t\<close>, \<open>parseAll\<close>
  for \<open>-a\<close>, \<open>parsePath\<close> for \<open>-p\<close>): its panic, or its output and error as the
  result, with the output printed after what the handler did.
\<close>

theorem Exec_short_flag_any_casing:
  assumes "shortFlagMap (ToLower flag) = Some mode"
  shows "short2Long flag = mode
           \<and> Exec r flag cmd os = Exec r mode cmd os
           \<and> (bin r \<noteq> [] \<and> (flagHandlers r = None \<or> flagHandlers r = Some createHandlers)
                 \<and> cmd \<noteq> [] \<longrightarrow>
               (\<exists>fn. createHandlers mode = Some fn
                  \<and> fn = (if ToLower flag = ''-t'' then parseType_fn
                          else if ToLower flag = ''-a'' then parseAll_fn
                          else parsePath_fn)
                  \<and> Exec r flag cmd os =
                      (case callHandler fn (r\<lparr>flagHandlers := Some createHandlers\<rparr>) cmd os of
                         (Inl p, os1) \<Rightarrow> (Inl p, r\<lparr>flagHandlers := Some createHandlers\<rparr>, os1)
                       | (Inr (out, err), os1) \<Rightarrow>
                           (Inr \<lparr>rs_output = out, rs_err = err\<rparr>,
                            r\<lparr>flagHandlers := Some createHandlers\<rparr>,
                            snd (if HasSuffix out [CHR 10]
                                 then print (r\<lparr>flagHandlers := Some createHandlers\<rparr>) out os1
                                 else println (r\<lparr>flagHandlers := Some createHandlers\<rparr>)
                                        [out] os1)))))"
proof -
  have norm: "short2Long flag = mode" using assms by (simp add: short2Long_def)
  have dash: "HasPrefix flag ''-'' = True"
    using short_flag_has_dash[OF assms] by (simp del: HasPrefix.simps)
  have plain: "HasPrefix mode ''-'' = False"
    using long_mode_no_dash[OF assms] by (simp del: HasPrefix.simps)
  have same: "Exec r flag cmd os = Exec r mode cmd os"
    unfolding Exec_def dash plain norm if_True if_False by (rule refl)
  define fn where "fn = (if ToLower flag = ''-t'' then parseType_fn
                          else if ToLower flag = ''-a'' then parseAll_fn
                          else parsePath_fn)"
  have reg: "createHandlers mode = Some fn"
    using assms by (auto simp: fn_def shortFlagMap_def createHandlers_def split: if_splits)
  then have key: "createHandlers (if HasPrefix flag ''-'' then short2Long flag else flag) = Some fn"
    unfolding dash norm by simp
  have "Exec r flag cmd os =
          (case callHandler fn (r\<lparr>flagHandlers := Some createHandlers\<rparr>) cmd os of
             (Inl p, os1) \<Rightarrow> (Inl p, r\<lparr>flagHandlers := Some createHandlers\<rparr>, os1)
           | (Inr (out, err), os1) \<Rightarrow>
               (Inr \<lparr>rs_output = out, rs_err = err\<rparr>,
                r\<lparr>flagHandlers := Some createHandlers\<rparr>,
                snd (if HasSuffix out [CHR 10]
                     then print (r\<lparr>flagHandlers := Some createHandlers\<rparr>) out os1
                     else println (r\<lparr>flagHandlers := Some createHandlers\<rparr>) [out] os1)))"
    if "bin r \<noteq> []" "flagHandlers r = None \<or> flagHandlers r = Some createHandlers" "cmd \<noteq> []"
    using Exec_dispatch[OF that key] .
  with norm same reg show ?thesis unfolding fn_def by blast
qed

theorem Exec_short_flag_any_casing_witness:
  "shortFlagMap (ToLower ''-T'') = Some ''type''
     \<and> shortFlagMap (ToLower ''-A'') = Some ''all''
     \<and> shortFlagMap (ToLower ''-P'') = Some ''path''
     \<and> bin (NewRunner (sample_os (run_prints sample_listing)) (Some 2) (Some 0) (Some 1)) \<noteq> []
     \<and> flagHandlers (NewRunner (sample_os (run_prints sample_listing)) (Some 2) (Some 0) (Some 1))
          = Some createHandlers
     \<and> ''ls'' \<noteq> []
     \<and> fst (Exec (NewRunner (sample_os (run_prints sample_listing)) (Some 2) (Some 0) (Some 1))
              ''-T'' ''ls'' (sample_os (run_prints sample_listing)))
          = Inr \<lparr>rs_output = ''file'', rs_err = None\<rparr>
     \<and> fst (Exec (NewRunner (sample_os (run_prints sample_listing)) (Some 2) (Some 0) (Some 1))
              ''-A'' ''ls'' (sample_os (run_prints sample_listing)))
          = Inr \<lparr>rs_output = sample_listing, rs_err = None\<rparr>
     \<and> fst (Exec (NewRunner (sample_os (run_prints sample_listing)) (Some 2) (Some 0) (Some 1))
              ''-P'' ''ls'' (sample_os (run_prints sample_listing)))
          = Inr \<lparr>rs_output = ''/bin/ls'', rs_err = None\<rparr>"
proof -
  let ?os = "sample_os (run_prints sample_listing)"
  let ?r = "NewRunner ?os (Some 2) (Some 0) (Some 1)"
  let ?r1 = "?r\<lparr>flagHandlers := Some createHandlers\<rparr>"
  have t: "shortFlagMap (ToLower ''-T'') = Some ''type''" by code_simp
  have a: "shortFlagMap (ToLower ''-A'') = Some ''all''" by code_simp
  have p: "shortFlagMap (ToLower ''-P'') = Some ''path''" by code_simp
  have lt: "ToLower ''-T'' = ''-t''" and la: "ToLower ''-A'' = ''-a''"
    and lp: "ToLower ''-P'' = ''-p''"
    by code_simp+
  have h1: "bin ?r \<noteq> []"
    by (simp add: NewRunner_def SetOut_def GetEnvOr_def sample_os_def defaultBind_def)
  have h2: "flagHandlers ?r = Some createHandlers" by (simp add: NewRunner_def SetOut_def)
  have h3: "''ls'' \<noteq> []" by simp
  have pre: "bin ?r \<noteq> [] \<and> (flagHandlers ?r = None \<or> flagHandlers ?r = Some createHandlers)
      \<and> ''ls'' \<noteq> []"
    using h1 h2 h3 by blast
  have ct: "fst (callHandler parseType_fn ?r1 ''ls'' ?os) = Inr (''file'', None)" by code_simp
  have ca: "fst (callHandler parseAll_fn ?r1 ''ls'' ?os) = Inr (sample_listing, None)"
    by code_simp
  have cp: "fst (callHandler parsePath_fn ?r1 ''ls'' ?os) = Inr (''/bin/ls'', None)"
    by code_simp
  have et: "fst (Exec ?r ''-T'' ''ls'' ?os) = Inr \<lparr>rs_output = ''file'', rs_err = None\<rparr>"
  proof -
    from Exec_short_flag_any_casing[OF t, of ?r "''ls''" ?os] pre
    obtain fn where fneq: "fn = (if ToLower ''-T'' = ''-t'' then parseType_fn
                           else if ToLower ''-T'' = ''-a'' then parseAll_fn else parsePath_fn)"
      and ex: "Exec ?r ''-T'' ''ls'' ?os =
             (case callHandler fn ?r1 ''ls'' ?os of
                (Inl p, os1) \<Rightarrow> (Inl p, ?r1, os1)
              | (Inr (out, err), os1) \<Rightarrow>
                  (Inr \<lparr>rs_output = out, rs_err = err\<rparr>, ?r1,
                   snd (if HasSuffix out [CHR 10] then print ?r1 out os1
                        else println ?r1 [out] os1)))"
      by blast
    from fneq have sel: "fn = parseType_fn" by (simp add: lt)
    show ?thesis by (rule Exec_dispatch_result[OF ex[unfolded sel] ct])
  qed
  have ea: "fst (Exec ?r ''-A'' ''ls'' ?os) = Inr \<lparr>rs_output = sample_listing, rs_err = None\<rparr>"
  proof -
    from Exec_short_flag_any_casing[OF a, of ?r "''ls''" ?os] pre
    obtain fn where fneq: "fn = (if ToLower ''-A'' = ''-t'' then parseType_fn
                           else if ToLower ''-A'' = ''-a'' then parseAll_fn else parsePath_fn)"
      and ex: "Exec ?r ''-A'' ''ls'' ?os =
             (case callHandler fn ?r1 ''ls'' ?os of
                (Inl p, os1) \<Rightarrow> (Inl p, ?r1, os1)
              | (Inr (out, err), os1) \<Rightarrow>
                  (Inr \<lparr>rs_output = out, rs_err = err\<rparr>, ?r1,
                   snd (if HasSuffix out [CHR 10] then print ?r1 out os1
                        else println ?r1 [out] os1)))"
      by blast
    from fneq have sel: "fn = parseAll_fn" by (simp add: la)
    show ?thesis by (rule Exec_dispatch_result[OF ex[unfolded sel] ca])
  qed
  have ep: "fst (Exec ?r ''-P'' ''ls'' ?os) = Inr \<lparr>rs_output = ''/bin/ls'', rs_err = None\<rparr>"
  proof -
    from Exec_short_flag_any_casing[OF p, of ?r "''ls''" ?os] pre
    obtain fn where fneq: "fn = (if ToLower ''-P'' = ''-t'' then parseType_fn
                           else if ToLower ''-P'' = ''-a'' then parseAll_fn else parsePath_fn)"
      and ex: "Exec ?r ''-P'' ''ls'' ?os =
             (case callHandler fn ?r1 ''ls'' ?os of
                (Inl p, os1) \<Rightarrow> (Inl p, ?r1, os1)
              | (Inr (out, err), os1) \<Rightarrow>
                  (Inr \<lparr>rs_output = out, rs_err = err\<rparr>, ?r1,
                   snd (if HasSuffix out [CHR 10] then print ?r1 out os1
                        else println ?r1 [out] os1)))"
      by blast
    from fneq have sel: "fn = parsePath_fn" by (simp add: lp)
    show ?thesis by (rule Exec_dispatch_result[OF ex[unfolded sel] cp])
  qed
  from t a p h1 h2 h3 et ea ep show ?thesis by blast
qed

subsection \<open>Binding the lookup binary\<close>

lemma Bind_relative_existing:
  assumes "b \<noteq> []" and "\<not> IsAbs b" and "filepath_Abs os b = Inr p" and "os_Stat os p = None"
  shows "Bind r b os = (r\<lparr>bin := p\<rparr>, os)"
  using assms by (simp add: Bind_def)

lemma Bind_keeps_binding_otherwise:
  assumes "b = [] \<or> IsAbs b \<or> (\<exists>e. filepath_Abs os b = Inl e)
             \<or> (\<exists>p e. filepath_Abs os b = Inr p \<and> os_Stat os p = Some e)"
  shows "fst (Bind r b os) = r"
  using assms by (auto simp: Bind_def)

text \<open>
  C3. \<open>Bind\<close> resolves, checks and stores a relative path only: given the absolute
  path \<open>/bin/sh\<close> it leaves the runner as it was, whatever the file system holds, and
  writes nothing.
\<close>

theorem Bind_absolute_path_not_bound:
  "Bind r ''/bin/sh'' os = (r, os)"
  by (simp add: Bind_def IsAbs_def)

subsection \<open>Path mode\<close>

text \<open>
  C4. \<open>parsePath\<close> indexes the pieces of the selected line at 1 without checking how many
  there are. On the output \<open>file\<close> the selected line is the first one, which has no
  \<open>is\<close> in it; on the one-line output \<open>ls is /bin/ls\<close> that ends in a newline the
  selected line is the empty second one. Both calls end in an index out of range.
\<close>

theorem parsePath_index_out_of_range:
  "fst (parsePath r cmd (sample_os (run_prints ''file''))) = Inl (IndexOutOfRange 1 1)
     \<and> fst (parsePath r cmd (sample_os (run_prints (''ls is /bin/ls'' @ [CHR 10]))))
          = Inl (IndexOutOfRange 1 1)"
proof -
  have ty1: "getType ''file'' = TypeFile" by code_simp
  have ty2: "getType ''ls is /bin/ls'' = TypeFile" by code_simp
  have s1: "Split ''file'' [CHR 10] = [''file'']" by code_simp
  have s2: "Split (''ls is /bin/ls'' @ [CHR 10]) [CHR 10] = [''ls is /bin/ls'', []]"
    by code_simp
  have s3: "Split ''file'' ''is'' = [''file'']" by code_simp
  have s4: "Split [] ''is'' = [[]]" by code_simp
  have one: "fst (parsePath r cmd (sample_os (run_prints ''file''))) = Inl (IndexOutOfRange 1 1)"
    by (simp add: parsePath_def command_Output_def sample_os_def run_prints_def s1 s3 ty1
        at_index_def)
  have two: "fst (parsePath r cmd (sample_os (run_prints (''ls is /bin/ls'' @ [CHR 10]))))
          = Inl (IndexOutOfRange 1 1)"
    unfolding parsePath_def command_Output_def sample_os_def run_prints_def
    by (simp only: OS.simps prod.case option.simps if_False simp_thms s2 Let_def)
       (simp add: at_index_def ty2 s4)
  from one two show ?thesis by simp
qed

end
